theory Spec2Isabelle
  imports Complex_Main "HOL-Library.Multiset"
begin

section \<open>Python values shared by the fetcher and the viewer\<close>

text \<open>
  Exceptions are values: a computation that may raise returns \<open>pyexn + 'a\<close>, with
  \<open>Inl\<close> for the exception.
\<close>

datatype pyexn = ImportError | ValueError | TypeError | OverflowError | IndexError
  | KeyError | LibraryError

subsection \<open>Double precision arithmetic\<close>

text \<open>
  A finite Python \<open>float\<close> is the rational number it denotes. \<open>binary64\<close> rounds a
  rational to the nearest number with a 53 bit significand, ties to even, as every IEEE 754
  operation on doubles does. The exponent is not bounded: the quantities of the viewer's
  slider arithmetic (a percentage and a row count) are far from overflow and underflow.
\<close>

fun bitlen :: "nat \<Rightarrow> nat" where
  "bitlen n = (if n = 0 then 0 else Suc (bitlen (n div 2)))"

declare bitlen.simps [simp del]

definition round_half_even :: "rat \<Rightarrow> int" where
  "round_half_even x =
     (let f = \<lfloor>x\<rfloor>; d = x - of_int f
      in if d < 1 / 2 then f else if 1 / 2 < d then f + 1
         else if even f then f else f + 1)"

definition ilog2 :: "rat \<Rightarrow> int" where
  \<comment> \<open>for \<open>0 < x\<close>: the integer \<open>e\<close> with \<open>2 powi e \<le> x < 2 powi (e + 1)\<close>\<close>
  "ilog2 x =
     (if 1 \<le> x then int (bitlen (nat \<lfloor>x\<rfloor>)) - 1
      else - int (bitlen (nat (\<lceil>1 / x\<rceil> - 1))))"

definition binary64 :: "rat \<Rightarrow> rat" where
  "binary64 x =
     (if x = 0 then 0
      else let e = ilog2 \<bar>x\<bar>;
               m = round_half_even (\<bar>x\<bar> * 2 powi (52 - e))
           in sgn x * of_int m * 2 powi (e - 52))"

definition py_int :: "rat \<Rightarrow> int" where
  \<comment> \<open>\<open>int(x)\<close> of a float: truncation toward zero\<close>
  "py_int x = (if 0 \<le> x then \<lfloor>x\<rfloor> else \<lceil>x\<rceil>)"

subsection \<open>Positional indexing\<close>

definition iloc :: "'a list \<Rightarrow> int \<Rightarrow> pyexn + 'a" where
  \<comment> \<open>\<open>series.iloc[i]\<close>: position \<open>-k\<close> is the \<open>k\<close>-th row from the end, a position
      outside the series raises\<close>
  "iloc xs i =
     (if 0 \<le> i \<and> i < int (length xs) then Inr (xs ! nat i)
      else if i < 0 \<and> - int (length xs) \<le> i then Inr (xs ! nat (int (length xs) + i))
      else Inl IndexError)"

section \<open>The viewer (gps_viewer.py)\<close>

subsection \<open>Data\<close>

text \<open>
  A row of the GPS table after \<open>load_data\<close>: the timestamp column holds nanoseconds
  since the epoch, \<open>None\<close> for pandas' \<open>NaT\<close>; rows without coordinates were dropped.
\<close>

record row =
  individual_local_identifier :: string
  timestamp :: "int option"
  location_lat :: real
  location_long :: real

text \<open>
  The fields of \<open>GPSViewer\<close> that filtering and playback read or write. Tk's event loop is
  part of the state: \<open>tk_pending\<close> holds the identifiers of the callbacks scheduled with
  \<open>root.after\<close> that have neither fired nor been cancelled, \<open>tk_after_count\<close> is the next
  fresh identifier.
\<close>

record viewer =
  gps_data :: "row list option"
  filtered_data :: "row list option"
  animal_var :: string
  start_date_var :: string
  end_date_var :: string
  animation_playing :: bool
  animation_index :: int
  animation_timer :: "nat option"
  tk_pending :: "nat set"
  tk_after_count :: nat

definition view_length :: "viewer \<Rightarrow> int" where
  \<comment> \<open>\<open>len(self.filtered_data)\<close> where a view is set\<close>
  "view_length v = (case filtered_data v of None \<Rightarrow> 0 | Some fd \<Rightarrow> int (length fd))"

subsection \<open>Playback\<close>

definition after_cancel :: "nat option \<Rightarrow> viewer \<Rightarrow> viewer" where
  \<comment> \<open>\<open>if self.animation_timer: self.root.after_cancel(self.animation_timer)\<close>\<close>
  "after_cancel t v =
     (case t of None \<Rightarrow> v | Some i \<Rightarrow> v\<lparr>tk_pending := tk_pending v - {i}\<rparr>)"

definition reset_animation :: "viewer \<Rightarrow> viewer" where
  "reset_animation v =
     after_cancel (animation_timer v)
       (v\<lparr>animation_index := 0, animation_playing := False\<rparr>)"

definition animate_step :: "viewer \<Rightarrow> viewer" where
  "animate_step v =
     (if \<not> animation_playing v \<or> filtered_data v = None then v
      else if view_length v \<le> animation_index v then reset_animation v
      else v\<lparr>animation_index := animation_index v + 1,
             animation_timer := Some (tk_after_count v),
             tk_pending := insert (tk_after_count v) (tk_pending v),
             tk_after_count := Suc (tk_after_count v)\<rparr>)"

definition toggle_animation :: "viewer \<Rightarrow> viewer" where
  "toggle_animation v =
     (if animation_playing v
      then after_cancel (animation_timer v) (v\<lparr>animation_playing := False\<rparr>)
      else animate_step (v\<lparr>animation_playing := True\<rparr>))"

definition seek_index :: "int \<Rightarrow> int \<Rightarrow> int" where
  \<comment> \<open>\<open>index = int((position / 100) * max_index)\<close>: a correctly rounded quotient of two
      integers, the conversion of \<open>max_index\<close> to a double, a rounded product and a
      truncation\<close>
  "seek_index position max_index =
     py_int (binary64 (binary64 (of_int position / 100) * binary64 (of_int max_index)))"

definition on_position_changed :: "int \<Rightarrow> viewer \<Rightarrow> viewer" where
  \<comment> \<open>the argument is \<open>position = int(float(value))\<close>\<close>
  "on_position_changed position v =
     (if filtered_data v = None \<or> view_length v = 0 then v
      else let v1 = (if animation_playing v then toggle_animation v else v);
               max_index = view_length v1 - 1;
               index = seek_index position max_index;
               index = max 1 (min index max_index)
           in v1\<lparr>animation_index := index\<rparr>)"

definition preview_point :: "viewer \<Rightarrow> int \<Rightarrow> pyexn + row" where
  \<comment> \<open>the row \<open>update_map_preview_animated(num_points)\<close> reads for the current position:
      \<open>self.filtered_data[...].iloc[num_points - 1]\<close>\<close>
  "preview_point v num_points =
     (case filtered_data v of
        None \<Rightarrow> Inl LibraryError
      | Some fd \<Rightarrow> iloc fd (num_points - 1))"

definition tick :: "nat \<Rightarrow> viewer \<Rightarrow> viewer" where
  \<comment> \<open>the event loop fires the pending callback \<open>t\<close>: it leaves the queue and
      \<open>animate_step\<close> runs\<close>
  "tick t v = animate_step (v\<lparr>tk_pending := tk_pending v - {t}\<rparr>)"

text \<open>
  The states playback can reach on a fixed filtered view \<open>fd\<close>: from a viewer that has
  not played yet, by the Play/Pause button, the Reset button, a move of the position
  slider, and the firing of a pending timer, in any order.
\<close>

inductive reachable :: "row list option \<Rightarrow> viewer \<Rightarrow> bool" for fd where
  init: "filtered_data v = fd \<Longrightarrow> \<not> animation_playing v \<Longrightarrow> animation_index v = 0 \<Longrightarrow>
         animation_timer v = None \<Longrightarrow> tk_pending v = {} \<Longrightarrow> reachable fd v"
| toggle: "reachable fd v \<Longrightarrow> reachable fd (toggle_animation v)"
| reset: "reachable fd v \<Longrightarrow> reachable fd (reset_animation v)"
| seek: "reachable fd v \<Longrightarrow> reachable fd (on_position_changed position v)"
| fire: "reachable fd v \<Longrightarrow> t \<in> tk_pending v \<Longrightarrow> reachable fd (tick t v)"

text \<open>The seek position as the specification words it: rounded to the nearest index.\<close>

definition spec_seek_cursor :: "int \<Rightarrow> int \<Rightarrow> int" where
  "spec_seek_cursor len p = max 1 (min (round (of_int p / 100 * of_int (len - 1) :: rat)) (len - 1))"

text \<open>What every playback step keeps true between the cursor, the timer and the queue.\<close>

definition playback_inv :: "row list option \<Rightarrow> viewer \<Rightarrow> bool" where
  "playback_inv fd v \<longleftrightarrow>
     filtered_data v = fd \<and> 0 \<le> animation_index v \<and> animation_index v \<le> view_length v \<and>
     tk_pending v \<subseteq> set_option (animation_timer v) \<and>
     (tk_pending v \<noteq> {} \<longrightarrow> animation_playing v)"

subsection \<open>Distance\<close>

text \<open>
  Latitudes, longitudes and distances are real numbers and \<open>sin\<close>, \<open>cos\<close>, \<open>asin\<close>
  and \<open>sqrt\<close> are the mathematical functions: IEEE 754 leaves the library functions
  unspecified, so their rounding is not modelled. \<open>math.sqrt\<close> and \<open>math.asin\<close> raise
  \<open>ValueError\<close> outside their domains.
\<close>

definition radians :: "real \<Rightarrow> real" where
  "radians x = x * pi / 180"

definition py_sqrt :: "real \<Rightarrow> pyexn + real" where
  "py_sqrt x = (if x < 0 then Inl ValueError else Inr (sqrt x))"

definition py_asin :: "real \<Rightarrow> pyexn + real" where
  "py_asin x = (if x < - 1 \<or> 1 < x then Inl ValueError else Inr (arcsin x))"

definition haversine_distance :: "real \<Rightarrow> real \<Rightarrow> real \<Rightarrow> real \<Rightarrow> pyexn + real" where
  "haversine_distance lat1 lon1 lat2 lon2 =
     (let lat1 = radians lat1; lon1 = radians lon1;
          lat2 = radians lat2; lon2 = radians lon2;
          dlat = lat2 - lat1;
          dlon = lon2 - lon1;
          a = (sin (dlat / 2))\<^sup>2 + cos lat1 * cos lat2 * (sin (dlon / 2))\<^sup>2
      in case py_sqrt a of
           Inl e \<Rightarrow> Inl e
         | Inr s \<Rightarrow>
             (case py_asin s of
                Inl e \<Rightarrow> Inl e
              | Inr t \<Rightarrow> let c = 2 * t; r = 6371 in Inr (c * r)))"

subsection \<open>Day and night\<close>

text \<open>
  A \<open>datetime\<close> as \<open>is_daytime\<close> uses it: \<open>wall\<close> is the reading of the wall clock in
  microseconds since 0001-01-01 00:00:00, \<open>tzinfo\<close> the offset from UTC in microseconds,
  \<open>None\<close> for a naive value. A \<open>datetime\<close> lies between years 1 and 9999; arithmetic
  that leaves the range raises \<open>OverflowError\<close>. Africa/Nairobi is East Africa Time,
  three hours ahead of UTC (its offset since 1942).
\<close>

record stamp =
  wall :: int
  tzinfo :: "int option"

definition us_per_hour :: int where
  "us_per_hour = 3600000000"

definition us_per_day :: int where
  "us_per_day = 24 * us_per_hour"

definition max_wall :: int where
  \<comment> \<open>the first instant after 9999-12-31: 3652059 days\<close>
  "max_wall = 3652059 * us_per_day"

definition kenyan_tz :: int where
  "kenyan_tz = 3 * us_per_hour"

definition hour :: "stamp \<Rightarrow> int" where
  "hour t = (wall t div us_per_hour) mod 24"

definition date :: "stamp \<Rightarrow> int" where
  \<comment> \<open>the calendar day, counted from 0001-01-01\<close>
  "date t = wall t div us_per_day"

definition utc_localize :: "stamp \<Rightarrow> pyexn + stamp" where
  \<comment> \<open>\<open>pytz.utc.localize(t)\<close>\<close>
  "utc_localize t = (if tzinfo t = None then Inr (t\<lparr>tzinfo := Some 0\<rparr>) else Inl ValueError)"

definition shift_wall :: "int \<Rightarrow> int \<Rightarrow> pyexn + int" where
  \<comment> \<open>a reading moved by a \<open>timedelta\<close>\<close>
  "shift_wall w d = (if 0 \<le> w + d \<and> w + d < max_wall then Inr (w + d) else Inl OverflowError)"

definition astimezone :: "int \<Rightarrow> stamp \<Rightarrow> pyexn + stamp" where
  \<comment> \<open>\<open>t.astimezone(tz)\<close> for an aware \<open>t\<close> and a zone of fixed offset: to UTC, then to
      the zone. (A naive \<open>t\<close> would be read in the machine's zone; \<open>is_daytime\<close> never
      passes one.)\<close>
  "astimezone tz t =
     (case tzinfo t of
        None \<Rightarrow> Inl LibraryError
      | Some off \<Rightarrow>
          (case shift_wall (wall t) (- off) of
             Inl e \<Rightarrow> Inl e
           | Inr utc \<Rightarrow>
               (case shift_wall utc tz of
                  Inl e \<Rightarrow> Inl e
                | Inr w \<Rightarrow> Inr \<lparr>wall = w, tzinfo = Some tz\<rparr>)))"

definition stamp_le :: "stamp \<Rightarrow> stamp \<Rightarrow> pyexn + bool" where
  \<comment> \<open>\<open>a <= b\<close>: aware values compare as instants, naive ones as readings, one of each
      raises\<close>
  "stamp_le a b =
     (case (tzinfo a, tzinfo b) of
        (None, None) \<Rightarrow> Inr (wall a \<le> wall b)
      | (Some oa, Some ob) \<Rightarrow> Inr (wall a - oa \<le> wall b - ob)
      | _ \<Rightarrow> Inl TypeError)"

text \<open>
  The \<open>astral\<close> package is a parameter \<open>sun\<close>: from a latitude, a longitude and a day it
  gives sunrise and sunset, or raises (\<open>ImportError\<close> when it is not installed,
  \<open>ValueError\<close> where the sun does not rise).
\<close>

type_synonym astral = "real \<Rightarrow> real \<Rightarrow> int \<Rightarrow> pyexn + stamp \<times> stamp"

definition calculate_sunrise_sunset ::
  "astral \<Rightarrow> real \<Rightarrow> real \<Rightarrow> int \<Rightarrow> stamp option \<times> stamp option" where
  "calculate_sunrise_sunset sun lat lon day =
     (case sun lat lon day of
        Inr (sunrise, sunset) \<Rightarrow> (Some sunrise, Some sunset)
      | Inl ImportError \<Rightarrow> (None, None)
      | Inl e \<Rightarrow> (None, None))"

definition to_kenyan :: "stamp \<Rightarrow> pyexn + stamp" where
  \<comment> \<open>a naive timestamp is taken as UTC, then \<open>astimezone(kenyan_tz)\<close>\<close>
  "to_kenyan ts =
     (case (if tzinfo ts = None then utc_localize ts else Inr ts) of
        Inl e \<Rightarrow> Inl e
      | Inr ts_utc \<Rightarrow> astimezone kenyan_tz ts_utc)"

definition is_daytime_try :: "astral \<Rightarrow> real \<Rightarrow> real \<Rightarrow> stamp \<Rightarrow> pyexn + bool" where
  \<comment> \<open>the body of the \<open>try\<close>\<close>
  "is_daytime_try sun lat lon ts =
     (case to_kenyan ts of
        Inl e \<Rightarrow> Inl e
      | Inr timestamp_kenyan \<Rightarrow>
          (case calculate_sunrise_sunset sun lat lon (date timestamp_kenyan) of
             (Some sunrise, Some sunset) \<Rightarrow>
               (case stamp_le sunrise timestamp_kenyan of
                  Inl e \<Rightarrow> Inl e
                | Inr False \<Rightarrow> Inr False
                | Inr True \<Rightarrow> stamp_le timestamp_kenyan sunset)
           | _ \<Rightarrow> Inr (6 \<le> hour timestamp_kenyan \<and> hour timestamp_kenyan \<le> 18)))"

definition is_daytime :: "astral \<Rightarrow> real \<Rightarrow> real \<Rightarrow> stamp \<Rightarrow> pyexn + bool" where
  "is_daytime sun lat lon ts =
     (case is_daytime_try sun lat lon ts of
        Inr b \<Rightarrow> Inr b
      | Inl e \<Rightarrow> Inr (6 \<le> hour ts \<and> hour ts \<le> 18))"

text \<open>The fallback window as the specification words it: hours 6 to 17.\<close>

definition spec_daytime_window :: "int \<Rightarrow> bool" where
  "spec_daytime_window h \<longleftrightarrow> 6 \<le> h \<and> h < 18"

definition no_astral :: astral where
  \<comment> \<open>the package is not installed\<close>
  "no_astral lat lon day = Inl ImportError"

definition evening_utc :: stamp where
  \<comment> \<open>2024-01-01 15:30:00, naive: 18:30 in Nairobi\<close>
  "evening_utc = \<lparr>wall = 738885 * us_per_day + 15 * us_per_hour + 1800000000, tzinfo = None\<rparr>"

definition evening_nairobi :: stamp where
  \<comment> \<open>2024-01-01 18:30:00+03:00\<close>
  "evening_nairobi =
     \<lparr>wall = 738885 * us_per_day + 18 * us_per_hour + 1800000000, tzinfo = Some kenyan_tz\<rparr>"

definition last_evening :: stamp where
  \<comment> \<open>9999-12-31 18:30:00-05:00: 23:30 UTC, and past the last day in Nairobi\<close>
  "last_evening =
     \<lparr>wall = 3652058 * us_per_day + 18 * us_per_hour + 1800000000,
      tzinfo = Some (- 5 * us_per_hour)\<rparr>"

subsection \<open>Filtering\<close>

text \<open>
  What \<open>pd.to_datetime\<close> makes of the text of a date field: \<open>NaT\<close> (of the empty
  string), a timestamp without time zone, or one with a time zone; each carries
  nanoseconds since the epoch in a signed 64 bit integer, whose least value stands for
  \<open>NaT\<close>. Arithmetic that leaves the range from \<open>Timestamp.min\<close> to \<open>Timestamp.max\<close>
  (2262-04-11 23:47:16.854775807) raises. The parser itself is a parameter
  \<open>to_datetime\<close>, which may raise.
\<close>

datatype pd_scalar = NaT | Naive int | Aware int

definition day_ns :: int where
  \<comment> \<open>\<open>timedelta(days=1)\<close>\<close>
  "day_ns = 86400 * 1000000000"

definition ts_max :: int where
  \<comment> \<open>\<open>Timestamp.max.value\<close>\<close>
  "ts_max = 9223372036854775807"

definition ts_min :: int where
  \<comment> \<open>\<open>Timestamp.min.value\<close>\<close>
  "ts_min = - 9223372036854775807"

definition shift_ns :: "int \<Rightarrow> int \<Rightarrow> pyexn + int" where
  "shift_ns t d = (if ts_min \<le> t + d \<and> t + d \<le> ts_max then Inr (t + d) else Inl OverflowError)"

definition add_timedelta :: "pd_scalar \<Rightarrow> int \<Rightarrow> pyexn + pd_scalar" where
  \<comment> \<open>\<open>x + timedelta\<close>: \<open>NaT\<close> stays \<open>NaT\<close>, a timestamp moved out of range raises\<close>
  "add_timedelta x d =
     (case x of
        NaT \<Rightarrow> Inr NaT
      | Naive t \<Rightarrow> (case shift_ns t d of Inl e \<Rightarrow> Inl e | Inr u \<Rightarrow> Inr (Naive u))
      | Aware t \<Rightarrow> (case shift_ns t d of Inl e \<Rightarrow> Inl e | Inr u \<Rightarrow> Inr (Aware u)))"

definition column_ge :: "row list \<Rightarrow> pd_scalar \<Rightarrow> pyexn + bool list" where
  \<comment> \<open>\<open>data['timestamp'] >= x\<close> on the column, which has no time zone: \<open>NaT\<close> on either
      side gives \<open>False\<close>, a bound with a time zone raises\<close>
  "column_ge data x =
     (case x of
        NaT \<Rightarrow> Inr (map (\<lambda>r. False) data)
      | Naive b \<Rightarrow> Inr (map (\<lambda>r. case timestamp r of None \<Rightarrow> False | Some t \<Rightarrow> b \<le> t) data)
      | Aware b \<Rightarrow> Inl TypeError)"

definition column_lt :: "row list \<Rightarrow> pd_scalar \<Rightarrow> pyexn + bool list" where
  "column_lt data x =
     (case x of
        NaT \<Rightarrow> Inr (map (\<lambda>r. False) data)
      | Naive b \<Rightarrow> Inr (map (\<lambda>r. case timestamp r of None \<Rightarrow> False | Some t \<Rightarrow> t < b) data)
      | Aware b \<Rightarrow> Inl TypeError)"

definition select_rows :: "row list \<Rightarrow> bool list \<Rightarrow> row list" where
  \<comment> \<open>\<open>data[mask]\<close>\<close>
  "select_rows data keep = map fst (filter snd (zip data keep))"

definition filter_by_dates ::
  "(string \<Rightarrow> pyexn + pd_scalar) \<Rightarrow> string \<Rightarrow> string \<Rightarrow> row list \<Rightarrow> pyexn + row list" where
  \<comment> \<open>the body of the \<open>try\<close>\<close>
  "filter_by_dates to_datetime start_text end_text data =
     (case to_datetime start_text of
        Inl e \<Rightarrow> Inl e
      | Inr start_date \<Rightarrow>
          (case to_datetime end_text of
             Inl e \<Rightarrow> Inl e
           | Inr end_parsed \<Rightarrow>
               (case add_timedelta end_parsed day_ns of
                  Inl e \<Rightarrow> Inl e
                | Inr end_date \<Rightarrow>
                    (case column_ge data start_date of
                       Inl e \<Rightarrow> Inl e
                     | Inr m1 \<Rightarrow>
                         (case column_lt data end_date of
                            Inl e \<Rightarrow> Inl e
                          | Inr m2 \<Rightarrow> Inr (select_rows data (map2 (\<and>) m1 m2)))))))"

fun timestamp_le :: "int option \<Rightarrow> int option \<Rightarrow> bool" where
  \<comment> \<open>the order of \<open>sort_values\<close>: ascending, \<open>NaT\<close> last\<close>
  "timestamp_le _ None = True"
| "timestamp_le None (Some b) = False"
| "timestamp_le (Some a) (Some b) = (a \<le> b)"

fun place_row :: "row \<Rightarrow> row list \<Rightarrow> row list" where
  "place_row r [] = [r]"
| "place_row r (x # xs) =
     (if timestamp_le (timestamp r) (timestamp x) then r # x # xs else x # place_row r xs)"

definition sort_values :: "row list \<Rightarrow> row list" where
  \<comment> \<open>\<open>data.sort_values('timestamp')\<close>; rows of equal timestamp keep their order here\<close>
  "sort_values data = foldr place_row data []"

definition filter_data :: "(string \<Rightarrow> pyexn + pd_scalar) \<Rightarrow> viewer \<Rightarrow> viewer" where
  "filter_data to_datetime v =
     (case gps_data v of
        None \<Rightarrow> v
      | Some gps \<Rightarrow>
          if animal_var v = [] then v
          else let data = filter (\<lambda>r. individual_local_identifier r = animal_var v) gps;
                   data = (case filter_by_dates to_datetime (start_date_var v) (end_date_var v) data of
                             Inr selected \<Rightarrow> selected
                           | Inl e \<Rightarrow> data);
                   data = sort_values data
               in v\<lparr>filtered_data := Some data\<rparr>)"

definition day_floor :: "int \<Rightarrow> int" where
  \<comment> \<open>midnight of the day of \<open>t\<close>: what \<open>strftime('%Y-%m-%d')\<close> keeps of a timestamp\<close>
  "day_floor t = (t div day_ns) * day_ns"

definition in_range_rows :: "string \<Rightarrow> int \<Rightarrow> int \<Rightarrow> row list \<Rightarrow> row list" where
  \<comment> \<open>the rows of a subject with \<open>lo \<le> timestamp < hi\<close>, in table order\<close>
  "in_range_rows animal lo hi gps =
     filter (\<lambda>r. individual_local_identifier r = animal \<and>
                 (case timestamp r of None \<Rightarrow> False | Some t \<Rightarrow> lo \<le> t \<and> t < hi)) gps"

section \<open>The fetcher (fetch_movebank_data.py)\<close>

subsection \<open>Strings\<close>

text \<open>
  A character is a code point below 256. \<open>str.isdigit\<close> accepts the ten ASCII digits and
  the superscripts 1, 2 and 3 (code points 185, 178 and 179); the \<open>\d\<close> of a regular
  expression accepts the ASCII digits only, and \<open>\s\<close> the white space listed below.
\<close>

definition is_decimal :: "char \<Rightarrow> bool" where
  "is_decimal c \<longleftrightarrow> c \<in> set ''0123456789''"

definition is_digit :: "char \<Rightarrow> bool" where
  "is_digit c \<longleftrightarrow> is_decimal c \<or> of_char c \<in> {178, 179, 185 :: nat}"

definition isdigit :: "string \<Rightarrow> bool" where
  \<comment> \<open>\<open>s.isdigit()\<close>: at least one character, all digits\<close>
  "isdigit s \<longleftrightarrow> s \<noteq> [] \<and> list_all is_digit s"

definition digit_val :: "char \<Rightarrow> nat" where
  "digit_val c = of_char c - 48"

definition digit_char :: "nat \<Rightarrow> char" where
  "digit_char n = ''0123456789'' ! n"

definition remove_char :: "char \<Rightarrow> string \<Rightarrow> string" where
  \<comment> \<open>\<open>s.replace(c, '')\<close>\<close>
  "remove_char c s = filter (\<lambda>x. x \<noteq> c) s"

definition ljust :: "nat \<Rightarrow> char \<Rightarrow> string \<Rightarrow> string" where
  "ljust n c s = s @ replicate (n - length s) c"

definition is_space :: "char \<Rightarrow> bool" where
  "is_space c \<longleftrightarrow> of_char c \<in> {9, 10, 11, 12, 13, 28, 29, 30, 31, 32, 133, 160 :: nat}"

subsection \<open>Parsing and printing dates\<close>

text \<open>
  \<open>datetime.strptime\<close> turns the format into a regular expression, one group of
  alternatives for each directive (\<open>%Y\<close> is \<open>\d\d\d\d\<close>, \<open>%m\<close> is
  \<open>1[0-2]|0[1-9]|[1-9]\<close>, \<open>%d\<close> is \<open>3[0-1]|[1-2]\d|0[1-9]|[1-9]| [1-9]\<close>, \<open>%H\<close> is
  \<open>2[0-3]|[0-1]\d|\d\<close>, \<open>%M\<close> is \<open>[0-5]\d|\d\<close>, \<open>%S\<close> is \<open>6[0-1]|[0-5]\d|\d\<close>, a
  blank of the format is \<open>\s+\<close>), matches it at the start of the text, and refuses text
  that the match leaves over. \<open>alternatives\<close> lists, in the order the expression tries
  them, the ways a directive can match at the start of a text: the value read (none for
  text of the format itself) and the rest of the text.
\<close>

datatype directive = Year | Month | Day | Hour | Minute | Second | Lit char | Spaces

fun two_chars :: "string \<Rightarrow> string \<Rightarrow> string \<Rightarrow> (nat list \<times> string) list" where
  \<comment> \<open>a character of the first class, then one of the second\<close>
  "two_chars p q (a # b # s) =
     (if a \<in> set p \<and> b \<in> set q then [([10 * digit_val a + digit_val b], s)] else [])"
| "two_chars p q s = []"

fun one_char :: "string \<Rightarrow> string \<Rightarrow> (nat list \<times> string) list" where
  "one_char p (a # s) = (if a \<in> set p then [([digit_val a], s)] else [])"
| "one_char p s = []"

fun four_digits :: "string \<Rightarrow> (nat list \<times> string) list" where
  "four_digits (a # b # c # d # s) =
     (if is_decimal a \<and> is_decimal b \<and> is_decimal c \<and> is_decimal d
      then [([1000 * digit_val a + 100 * digit_val b + 10 * digit_val c + digit_val d], s)]
      else [])"
| "four_digits s = []"

fun space_digit :: "string \<Rightarrow> (nat list \<times> string) list" where
  "space_digit (a # b # s) =
     (if a = CHR '' '' \<and> b \<in> set ''123456789'' then [([digit_val b], s)] else [])"
| "space_digit s = []"

fun spaces :: "string \<Rightarrow> (nat list \<times> string) list" where
  \<comment> \<open>\<open>\s+\<close>: the longest run first\<close>
  "spaces [] = []"
| "spaces (a # s) = (if is_space a then spaces s @ [([], s)] else [])"

fun alternatives :: "directive \<Rightarrow> string \<Rightarrow> (nat list \<times> string) list" where
  "alternatives Year s = four_digits s"
| "alternatives Month s =
     two_chars ''1'' ''012'' s @ two_chars ''0'' ''123456789'' s @ one_char ''123456789'' s"
| "alternatives Day s =
     two_chars ''3'' ''01'' s @ two_chars ''12'' ''0123456789'' s @
     two_chars ''0'' ''123456789'' s @ one_char ''123456789'' s @ space_digit s"
| "alternatives Hour s =
     two_chars ''2'' ''0123'' s @ two_chars ''01'' ''0123456789'' s @ one_char ''0123456789'' s"
| "alternatives Minute s =
     two_chars ''012345'' ''0123456789'' s @ one_char ''0123456789'' s"
| "alternatives Second s =
     two_chars ''6'' ''01'' s @ two_chars ''012345'' ''0123456789'' s @ one_char ''0123456789'' s"
| "alternatives (Lit c) s = (case s of [] \<Rightarrow> [] | a # r \<Rightarrow> if a = c then [([], r)] else [])"
| "alternatives Spaces s = spaces s"

fun matches :: "directive list \<Rightarrow> string \<Rightarrow> (nat list \<times> string) list" where
  \<comment> \<open>all matches of a format at the start of a text, the one the expression finds
      first\<close>
  "matches [] s = [([], s)]"
| "matches (d # ds) s =
     concat (map (\<lambda>(v, r). map (\<lambda>(vs, r'). (v @ vs, r')) (matches ds r)) (alternatives d s))"

record datetime =
  year :: nat
  month :: nat
  day :: nat
  hours :: nat
  minutes :: nat
  seconds :: nat

definition is_leap :: "nat \<Rightarrow> bool" where
  "is_leap y \<longleftrightarrow> y mod 4 = 0 \<and> (y mod 100 \<noteq> 0 \<or> y mod 400 = 0)"

definition days_in_month :: "nat \<Rightarrow> nat \<Rightarrow> nat" where
  "days_in_month y m =
     (if m = 2 then (if is_leap y then 29 else 28)
      else if m \<in> {4, 6, 9, 11} then 30 else 31)"

definition valid_date :: "nat \<Rightarrow> nat \<Rightarrow> nat \<Rightarrow> bool" where
  \<comment> \<open>the days \<open>datetime\<close> accepts\<close>
  "valid_date y m d \<longleftrightarrow>
     1 \<le> y \<and> y \<le> 9999 \<and> 1 \<le> m \<and> m \<le> 12 \<and> 1 \<le> d \<and> d \<le> days_in_month y m"

definition make_datetime :: "nat list \<Rightarrow> pyexn + datetime" where
  \<comment> \<open>the fields read, the missing ones 0, checked as the constructor checks them\<close>
  "make_datetime vs =
     (let y = vs ! 0; m = vs ! 1; d = vs ! 2;
          hh = (if 3 < length vs then vs ! 3 else 0);
          mm = (if 4 < length vs then vs ! 4 else 0);
          ss = (if 5 < length vs then vs ! 5 else 0)
      in if length vs < 3 then Inl ValueError
         else if valid_date y m d \<and> hh \<le> 23 \<and> mm \<le> 59 \<and> ss \<le> 59
         then Inr \<lparr>year = y, month = m, day = d, hours = hh, minutes = mm, seconds = ss\<rparr>
         else Inl ValueError)"

definition strptime :: "string \<Rightarrow> directive list \<Rightarrow> pyexn + datetime" where
  "strptime s fmt =
     (case matches fmt s of
        [] \<Rightarrow> Inl ValueError
      | (vs, rest) # others \<Rightarrow> if rest = [] then make_datetime vs else Inl ValueError)"

definition pad2 :: "nat \<Rightarrow> string" where
  "pad2 n = [digit_char (n div 10 mod 10), digit_char (n mod 10)]"

fun str_nat :: "nat \<Rightarrow> string" where
  \<comment> \<open>a number in decimal, without leading zeros\<close>
  "str_nat n = (if n < 10 then [digit_char n] else str_nat (n div 10) @ [digit_char (n mod 10)])"

declare str_nat.simps [simp del]

definition strftime :: "datetime \<Rightarrow> string" where
  \<comment> \<open>\<open>dt.strftime('%Y%m%d%H%M%S000')\<close> with the C library of Linux, which prints
      \<open>%Y\<close> without leading zeros (the padding of years below 1000 depends on the
      platform) and the other fields on two digits\<close>
  "strftime dt =
     str_nat (year dt) @ pad2 (month dt) @ pad2 (day dt) @
     pad2 (hours dt) @ pad2 (minutes dt) @ pad2 (seconds dt) @ ''000''"

definition fmt_date :: "directive list" where
  \<comment> \<open>\<open>'%Y-%m-%d'\<close>\<close>
  "fmt_date = [Year, Lit CHR ''-'', Month, Lit CHR ''-'', Day]"

definition fmt_seconds :: "directive list" where
  \<comment> \<open>\<open>'%Y-%m-%d %H:%M:%S'\<close>\<close>
  "fmt_seconds = fmt_date @ [Spaces, Hour, Lit CHR '':'', Minute, Lit CHR '':'', Second]"

definition fmt_minutes :: "directive list" where
  \<comment> \<open>\<open>'%Y-%m-%d %H:%M'\<close>\<close>
  "fmt_minutes = fmt_date @ [Spaces, Hour, Lit CHR '':'', Minute]"

definition fmt_compact :: "directive list" where
  \<comment> \<open>\<open>'%Y%m%d'\<close>, to read a normalized timestamp's date back\<close>
  "fmt_compact = [Year, Month, Day]"

subsection \<open>The timestamp normalizer\<close>

definition stripped :: "string \<Rightarrow> string" where
  \<comment> \<open>\<open>timestamp_str.replace(' ', '').replace('-', '').replace(':', '')\<close>\<close>
  "stripped s = remove_char CHR '':'' (remove_char CHR ''-'' (remove_char CHR '' '' s))"

definition parse_common :: "string \<Rightarrow> pyexn + string option" where
  \<comment> \<open>the body of the \<open>try\<close>: the formatted timestamp, or nothing when no length fits\<close>
  "parse_common timestamp_str =
     (if length timestamp_str = 10 \<and> count_list timestamp_str CHR ''-'' = 2
      then (case strptime timestamp_str fmt_date of
              Inl e \<Rightarrow> Inl e | Inr dt \<Rightarrow> Inr (Some (strftime dt)))
      else if length timestamp_str = 19
      then (case strptime timestamp_str fmt_seconds of
              Inl e \<Rightarrow> Inl e | Inr dt \<Rightarrow> Inr (Some (strftime dt)))
      else if length timestamp_str = 16
      then (case strptime timestamp_str fmt_minutes of
              Inl e \<Rightarrow> Inl e | Inr dt \<Rightarrow> Inr (Some (strftime dt)))
      else Inr None)"

definition convert_timestamp :: "string option \<Rightarrow> string option" where
  \<comment> \<open>\<open>_convert_timestamp\<close>; the argument is a string or \<open>None\<close>\<close>
  "convert_timestamp arg =
     (case arg of
        None \<Rightarrow> None
      | Some timestamp_str \<Rightarrow>
          if timestamp_str = [] then None
          else if isdigit (stripped timestamp_str) \<and> 14 \<le> length (stripped timestamp_str)
          then Some (ljust 17 CHR ''0'' (stripped timestamp_str))
          else (case parse_common timestamp_str of
                  Inr (Some formatted) \<Rightarrow> Some formatted
                | Inr None \<Rightarrow> Some timestamp_str
                | Inl ValueError \<Rightarrow> Some timestamp_str
                | Inl e \<Rightarrow> Some timestamp_str))"

definition pad4 :: "nat \<Rightarrow> string" where
  "pad4 n = [digit_char (n div 1000 mod 10), digit_char (n div 100 mod 10),
             digit_char (n div 10 mod 10), digit_char (n mod 10)]"

definition iso_date :: "nat \<Rightarrow> nat \<Rightarrow> nat \<Rightarrow> string" where
  \<comment> \<open>a date written \<open>YYYY-MM-DD\<close>\<close>
  "iso_date y m d = pad4 y @ ''-'' @ pad2 m @ ''-'' @ pad2 d"

subsection \<open>Sample data\<close>

definition sample_row :: "int \<Rightarrow> row" where
  "sample_row t =
     \<lparr>individual_local_identifier = ''A'', timestamp = Some t,
      location_lat = 0, location_long = 0\<rparr>"

definition idle_viewer :: "row list \<Rightarrow> viewer" where
  \<comment> \<open>a viewer showing the view \<open>rows\<close> that has not played yet\<close>
  "idle_viewer rows =
     \<lparr>gps_data = Some rows, filtered_data = Some rows, animal_var = ''A'',
      start_date_var = [], end_date_var = [],
      animation_playing = False, animation_index = 0, animation_timer = None,
      tk_pending = {}, tk_after_count = 0\<rparr>"

definition track2 :: "row list" where
  "track2 = map sample_row [0, 1]"

definition track4 :: "row list" where
  "track4 = map sample_row [0, 1, 2, 3]"

definition track101 :: "row list" where
  "track101 = map sample_row [0..100]"

definition two_day_table :: "row list" where
  \<comment> \<open>five rows of subject A on 2024-01-01 and 2024-01-02 (days 19723 and 19724 of the
      epoch), not in order, and a row of subject B\<close>
  "two_day_table =
     [sample_row (19723 * day_ns + 5), sample_row (19723 * day_ns + 1),
      sample_row (19724 * day_ns + 7),
      (sample_row (19723 * day_ns + 2))\<lparr>individual_local_identifier := ''B''\<rparr>,
      sample_row (19723 * day_ns + 3), sample_row (19724 * day_ns + 2)]"

definition two_day_viewer :: viewer where
  "two_day_viewer =
     (idle_viewer two_day_table)
       \<lparr>filtered_data := None, start_date_var := ''2024-01-01'', end_date_var := ''2024-01-02''\<rparr>"

definition two_day_parser :: "string \<Rightarrow> pyexn + pd_scalar" where
  \<comment> \<open>\<open>pd.to_datetime\<close> on the two dates of the example\<close>
  "two_day_parser text =
     (if text = ''2024-01-01'' then Inr (Naive (19723 * day_ns))
      else if text = ''2024-01-02'' then Inr (Naive (19724 * day_ns))
      else Inl ValueError)"

definition last_day_viewer :: viewer where
  \<comment> \<open>one row of 2024-01-01, the date fields set to the last two days a timestamp holds\<close>
  "last_day_viewer =
     (idle_viewer [sample_row (19723 * day_ns + 5)])
       \<lparr>filtered_data := None, start_date_var := ''2262-04-10'', end_date_var := ''2262-04-11''\<rparr>"

definition last_day_parser :: "string \<Rightarrow> pyexn + pd_scalar" where
  \<comment> \<open>\<open>pd.to_datetime\<close> on the two dates of the example\<close>
  "last_day_parser text =
     (if text = ''2262-04-10'' then Inr (Naive (106750 * day_ns))
      else if text = ''2262-04-11'' then Inr (Naive (106751 * day_ns))
      else Inl ValueError)"

lemma view_length_nonneg: "0 \<le> view_length v"
  by (simp add: view_length_def split: option.split)

lemma inv_after_cancel:
  "playback_inv fd v \<Longrightarrow> playback_inv fd (after_cancel (animation_timer v) (v\<lparr>animation_playing := False\<rparr>))"
  by (auto simp: playback_inv_def after_cancel_def view_length_def split: option.splits)

lemma inv_reset: "playback_inv fd v \<Longrightarrow> playback_inv fd (reset_animation v)"
  by (auto simp: playback_inv_def reset_animation_def after_cancel_def view_length_def split: option.splits)

lemma inv_animate_step:
  "playback_inv fd v \<Longrightarrow> tk_pending v = {} \<Longrightarrow> playback_inv fd (animate_step v)"
  unfolding animate_step_def
  by (auto simp: inv_reset) (auto simp: playback_inv_def view_length_def split: option.splits)

lemma inv_toggle: "playback_inv fd v \<Longrightarrow> playback_inv fd (toggle_animation v)"
proof -
  assume inv: "playback_inv fd v"
  show ?thesis
  proof (cases "animation_playing v")
    case True
    then show ?thesis using inv_after_cancel [OF inv] by (simp add: toggle_animation_def)
  next
    case False
    with inv have "tk_pending v = {}" by (auto simp: playback_inv_def)
    with inv have "playback_inv fd (v\<lparr>animation_playing := True\<rparr>)"
      by (auto simp: playback_inv_def view_length_def)
    moreover from \<open>tk_pending v = {}\<close> have "tk_pending (v\<lparr>animation_playing := True\<rparr>) = {}" by simp
    ultimately show ?thesis using False by (simp add: toggle_animation_def inv_animate_step)
  qed
qed

lemma seek_clamp: "1 \<le> n \<Longrightarrow> 1 \<le> max 1 (min i (n - 1)) \<and> max (1::int) (min i (n - 1)) \<le> n"
  by auto

lemma toggle_view_length: "view_length (toggle_animation v) = view_length v"
  by (simp add: toggle_animation_def animate_step_def reset_animation_def after_cancel_def view_length_def
      split: option.splits)

lemma inv_seek: "playback_inv fd v \<Longrightarrow> playback_inv fd (on_position_changed p v)"
proof -
  assume inv: "playback_inv fd v"
  show ?thesis
  proof (cases "filtered_data v = None \<or> view_length v = 0")
    case True
    with inv show ?thesis by (simp add: on_position_changed_def)
  next
    case False
    define v1 where "v1 = (if animation_playing v then toggle_animation v else v)"
    have inv1: "playback_inv fd v1" using inv by (simp add: v1_def inv_toggle)
    have len1: "view_length v1 = view_length v" by (simp add: v1_def toggle_view_length)
    have pos: "1 \<le> view_length v1" using False view_length_nonneg [of v] len1 by simp
    have res: "on_position_changed p v =
        v1\<lparr>animation_index := max 1 (min (seek_index p (view_length v1 - 1)) (view_length v1 - 1))\<rparr>"
      using False by (auto simp: on_position_changed_def v1_def Let_def)
    show ?thesis unfolding res using inv1 seek_clamp [OF pos]
      by (auto simp: playback_inv_def view_length_def)
  qed
qed

lemma inv_tick: "playback_inv fd v \<Longrightarrow> t \<in> tk_pending v \<Longrightarrow> playback_inv fd (tick t v)"
proof -
  assume inv: "playback_inv fd v" and t: "t \<in> tk_pending v"
  define w where "w = v\<lparr>tk_pending := tk_pending v - {t}\<rparr>"
  from inv t have "tk_pending v - {t} = {}"
    by (cases "animation_timer v") (auto simp: playback_inv_def)
  then have e: "tk_pending w = {}" by (simp add: w_def)
  with inv have "playback_inv fd w"
    by (auto simp: playback_inv_def view_length_def w_def)
  then have "playback_inv fd (animate_step w)" using e by (rule inv_animate_step)
  then show ?thesis by (simp add: tick_def w_def)
qed

lemma reachable_inv: "reachable fd v \<Longrightarrow> playback_inv fd v"
proof (induction rule: reachable.induct)
  case (init v)
  then show ?case by (simp add: playback_inv_def view_length_nonneg)
qed (simp_all add: inv_toggle inv_reset inv_seek inv_tick)

lemma tick_no_view:
  "filtered_data v = None \<Longrightarrow> tick t v = v\<lparr>tk_pending := tk_pending v - {t}\<rparr>"
  by (simp add: tick_def animate_step_def)

lemma tick_fires:
  assumes inv: "playback_inv fd v" and t: "t \<in> tk_pending v"
  shows "tick t v = animate_step (v\<lparr>tk_pending := {}\<rparr>)" and "animation_playing v"
proof -
  from inv t have "tk_pending v - {t} = {}"
    by (cases "animation_timer v") (auto simp: playback_inv_def)
  then show "tick t v = animate_step (v\<lparr>tk_pending := {}\<rparr>)" unfolding tick_def by (rule arg_cong)
  from inv t show "animation_playing v" by (auto simp: playback_inv_def)
qed

lemma animate_step_at_end:
  assumes "animation_playing v" and "filtered_data v = Some rows"
    and "int (length rows) \<le> animation_index v" and "tk_pending v = {}"
  shows "animation_index (animate_step v) = 0 \<and> tk_pending (animate_step v) = {}
     \<and> \<not> animation_playing (animate_step v)"
  using assms
  by (simp add: animate_step_def reset_animation_def after_cancel_def view_length_def split: option.splits)

lemma animate_step_advances:
  assumes "animation_playing v" and "filtered_data v = Some rows"
    and "animation_index v < int (length rows)" and "tk_pending v = {}"
  shows "animation_index (animate_step v) = animation_index v + 1
     \<and> tk_pending (animate_step v) = {tk_after_count v} \<and> animation_playing (animate_step v)"
  using assms by (simp add: animate_step_def view_length_def)

lemma tick_at_end:
  assumes inv: "playback_inv fd v" and t: "t \<in> tk_pending v"
    and full: "view_length v \<le> animation_index v" and view: "filtered_data v \<noteq> None"
  shows "animation_index (tick t v) = 0 \<and> tk_pending (tick t v) = {} \<and> \<not> animation_playing (tick t v)"
proof -
  from view obtain rows where rows: "filtered_data v = Some rows" by auto
  with full have "int (length rows) \<le> animation_index (v\<lparr>tk_pending := {}\<rparr>)"
    by (simp add: view_length_def)
  with tick_fires [OF inv t] rows show ?thesis
    using animate_step_at_end [of "v\<lparr>tk_pending := {}\<rparr>" rows] by simp
qed

lemma paused_state:
  assumes inv: "playback_inv fd v"
  defines "v1 \<equiv> (if animation_playing v then toggle_animation v else v)"
  shows "\<not> animation_playing v1" and "tk_pending v1 = {}" and "view_length v1 = view_length v"
proof -
  show "\<not> animation_playing v1"
    by (simp add: v1_def toggle_animation_def after_cancel_def split: option.splits)
  show "tk_pending v1 = {}" using inv
    by (cases "animation_timer v") (auto simp: v1_def toggle_animation_def after_cancel_def playback_inv_def)
  show "view_length v1 = view_length v" by (simp add: v1_def toggle_view_length)
qed

lemma on_position_changed_eq:
  assumes "filtered_data v = Some rows" and "rows \<noteq> []"
  shows "on_position_changed p v =
    (if animation_playing v then toggle_animation v else v)
      \<lparr>animation_index := max 1 (min (seek_index p (int (length rows) - 1)) (int (length rows) - 1))\<rparr>"
  using assms
  by (simp add: on_position_changed_def Let_def toggle_view_length) (simp add: view_length_def)

subsection \<open>Manual seek\<close>

text \<open>
  Claim C2, as the code has it. On a view of more than one row, in every state playback
  can reach, a move of the position slider to \<open>p\<close> sets the cursor to
  \<open>int((p / 100) * (length - 1))\<close>, the double precision product truncated toward zero
  (not rounded to the nearest index), clamped to \<open>[1, length - 1]\<close>; the cursor is
  therefore never 0. Afterwards playback is stopped and no timer is pending. On a track
  of 101 rows position 50 gives cursor 50.
\<close>

theorem seek_truncates_and_pauses:
  assumes r: "reachable (Some rows) v" and len: "1 < length rows"
  shows "animation_index (on_position_changed p v) =
           max 1 (min (seek_index p (int (length rows) - 1)) (int (length rows) - 1)) \<and>
         1 \<le> animation_index (on_position_changed p v) \<and>
         animation_index (on_position_changed p v) \<le> int (length rows) - 1 \<and>
         \<not> animation_playing (on_position_changed p v) \<and>
         tk_pending (on_position_changed p v) = {} \<and>
         (length rows = 101 \<and> p = 50 \<longrightarrow> animation_index (on_position_changed p v) = 50)"
proof -
  have inv: "playback_inv (Some rows) v" using r by (rule reachable_inv)
  then have fd: "filtered_data v = Some rows" by (simp add: playback_inv_def)
  from len have ne: "rows \<noteq> []" by auto
  note eq = on_position_changed_eq [OF fd ne, of p]
  have idx: "animation_index (on_position_changed p v) =
           max 1 (min (seek_index p (int (length rows) - 1)) (int (length rows) - 1))"
    by (simp add: eq)
  have s50: "seek_index 50 100 = 50" by code_simp
  have "\<not> animation_playing (on_position_changed p v)"
    using paused_state(1) [OF inv] by (simp add: eq)
  moreover have "tk_pending (on_position_changed p v) = {}"
    using paused_state(2) [OF inv] by (simp add: eq)
  moreover have "1 \<le> animation_index (on_position_changed p v)" by (simp add: idx)
  moreover have "animation_index (on_position_changed p v) \<le> int (length rows) - 1"
    using len by (simp add: idx)
  moreover have "animation_index (on_position_changed p v) = 50" if "length rows = 101" and "p = 50"
    using that s50 idx by simp
  ultimately show ?thesis using idx by simp
qed

text \<open>
  The theorem at a playing viewer on a track of 101 rows, the slider moved to 50.
\<close>

theorem seek_truncates_and_pauses_witness:
  "reachable (Some track101) (toggle_animation (idle_viewer track101)) \<and>
   1 < length track101 \<and> length track101 = 101 \<and>
   animation_playing (toggle_animation (idle_viewer track101)) \<and>
   tk_pending (toggle_animation (idle_viewer track101)) = {0} \<and>
   animation_index (on_position_changed 50 (toggle_animation (idle_viewer track101))) = 50 \<and>
   \<not> animation_playing (on_position_changed 50 (toggle_animation (idle_viewer track101))) \<and>
   tk_pending (on_position_changed 50 (toggle_animation (idle_viewer track101))) = {}"
proof -
  have r: "reachable (Some track101) (toggle_animation (idle_viewer track101))"
    by (rule reachable.toggle, rule reachable.init) (simp_all add: idle_viewer_def)
  have len: "length track101 = 101" by (simp add: track101_def)
  then have len1: "1 < length track101" by simp
  have pl: "animation_playing (toggle_animation (idle_viewer track101))"
    by (simp add: toggle_animation_def animate_step_def idle_viewer_def view_length_def len)
  have pe: "tk_pending (toggle_animation (idle_viewer track101)) = {0}"
    by (simp add: toggle_animation_def animate_step_def idle_viewer_def view_length_def len)
  from seek_truncates_and_pauses [OF r len1, of 50] len r len1 pl pe show ?thesis by simp
qed

text \<open>
  Claim C2 as the specification words it, with the cursor rounded to the nearest index,
  fails: on a view of four rows the slider at 50 gives \<open>int(0.5 * 3) = 1\<close>, while
  \<open>round(1.5) = 2\<close>; both lie inside the clamp.
\<close>

theorem seek_rounding_counterexample:
  "1 < length track4 \<and>
   reachable (Some track4) (idle_viewer track4) \<and>
   animation_index (on_position_changed 50 (idle_viewer track4)) = 1 \<and>
   spec_seek_cursor (int (length track4)) 50 = 2"
proof -
  have "reachable (Some track4) (idle_viewer track4)"
    by (rule reachable.init) (simp_all add: idle_viewer_def)
  moreover have "1 < length track4" by (simp add: track4_def)
  moreover have "animation_index (on_position_changed 50 (idle_viewer track4)) = 1"
    by code_simp
  moreover have "spec_seek_cursor (int (length track4)) 50 = 2"
    by code_simp
  ultimately show ?thesis by simp
qed

text \<open>
  Claim C10. On a view of exactly one row a move of the slider to any position sets the
  cursor to 1: the lower clamp wins over the upper one, so the cursor equals the length
  of the view and exceeds \<open>length - 1 = 0\<close>. The row the preview then reads, at index
  \<open>cursor - 1 = 0\<close>, is the single row of the view, with no \<open>IndexError\<close>.
\<close>

theorem single_point_seek:
  assumes fd: "filtered_data v = Some rows" and len: "length rows = 1"
  shows "animation_index (on_position_changed p v) = 1 \<and>
         animation_index (on_position_changed p v) = view_length (on_position_changed p v) \<and>
         preview_point (on_position_changed p v) (animation_index (on_position_changed p v))
           = Inr (rows ! 0)"
proof -
  from len have ne: "rows \<noteq> []" by auto
  note eq = on_position_changed_eq [OF fd ne, of p]
  have idx: "animation_index (on_position_changed p v) = 1" using len by (simp add: eq)
  have fd': "filtered_data (on_position_changed p v) = Some rows"
    using fd by (simp add: eq toggle_animation_def animate_step_def reset_animation_def
        after_cancel_def split: option.splits)
  show ?thesis using len by (simp add: idx fd' view_length_def preview_point_def iloc_def)
qed

theorem single_point_seek_witness:
  "filtered_data (idle_viewer [sample_row 7]) = Some [sample_row 7] \<and>
   length [sample_row 7] = 1 \<and>
   animation_index (on_position_changed 73 (idle_viewer [sample_row 7])) = 1 \<and>
   preview_point (on_position_changed 73 (idle_viewer [sample_row 7])) 1 = Inr (sample_row 7)"
proof -
  have fd: "filtered_data (idle_viewer [sample_row 7]) = Some [sample_row 7]"
    by (simp add: idle_viewer_def)
  have len: "length [sample_row 7] = 1" by simp
  from single_point_seek [OF fd len, of 73]
  have idx: "animation_index (on_position_changed 73 (idle_viewer [sample_row 7])) = 1"
    and pt: "preview_point (on_position_changed 73 (idle_viewer [sample_row 7]))
       (animation_index (on_position_changed 73 (idle_viewer [sample_row 7])))
         = Inr ([sample_row 7] ! 0)"
    by blast+
  from pt have "preview_point (on_position_changed 73 (idle_viewer [sample_row 7])) 1
         = Inr (sample_row 7)"
    unfolding idx by simp
  with fd idx show ?thesis by simp
qed

subsection \<open>The cursor stays inside the view\<close>

text \<open>
  Claim C3. In every state playback reaches on a fixed filtered view, by any interleaving
  of Play, Pause, Reset, slider moves and timer ticks, the cursor satisfies
  \<open>0 \<le> cursor \<le> length\<close>. When a tick brings the cursor to the length of the view,
  the tick after it resets the cursor to 0, stops playback and leaves no timer pending.
\<close>

theorem playback_cursor_bounds:
  assumes r: "reachable fd v"
  shows "0 \<le> animation_index v \<and> animation_index v \<le> view_length v \<and> filtered_data v = fd \<and>
    (\<forall>t t'. t \<in> tk_pending v \<and> animation_index (tick t v) = view_length v \<and> t' \<in> tk_pending (tick t v)
       \<longrightarrow> animation_index (tick t' (tick t v)) = 0 \<and> tk_pending (tick t' (tick t v)) = {}
           \<and> \<not> animation_playing (tick t' (tick t v)))"
proof -
  have inv: "playback_inv fd v" using r by (rule reachable_inv)
  have "animation_index (tick t' (tick t v)) = 0 \<and> tk_pending (tick t' (tick t v)) = {}
           \<and> \<not> animation_playing (tick t' (tick t v))"
    if t: "t \<in> tk_pending v" and full: "animation_index (tick t v) = view_length v"
      and t': "t' \<in> tk_pending (tick t v)" for t t'
  proof -
    have inv': "playback_inv fd (tick t v)" using inv t by (rule inv_tick)
    have view: "filtered_data (tick t v) \<noteq> None"
    proof
      assume "filtered_data (tick t v) = None"
      then have "filtered_data v = None" using inv inv' by (simp add: playback_inv_def)
      then have "tk_pending (tick t v) = tk_pending v - {t}" by (simp add: tick_no_view)
      moreover from inv t have "tk_pending v - {t} = {}"
        by (cases "animation_timer v") (auto simp: playback_inv_def)
      ultimately show False using t' by simp
    qed
    have len: "view_length (tick t v) = view_length v"
      using inv inv' by (simp add: playback_inv_def view_length_def)
    show ?thesis using tick_at_end [OF inv' t' _ view] full len by simp
  qed
  then show ?thesis using inv by (simp add: playback_inv_def)
qed

text \<open>
  The theorem on a run over a track of two rows: Play reveals the first row, the first
  tick reaches the length of the track, the second tick resets.
\<close>

theorem playback_cursor_bounds_witness:
  "reachable (Some track2) (toggle_animation (idle_viewer track2)) \<and>
   0 \<le> animation_index (toggle_animation (idle_viewer track2)) \<and>
   animation_index (toggle_animation (idle_viewer track2))
     \<le> view_length (toggle_animation (idle_viewer track2)) \<and>
   0 \<in> tk_pending (toggle_animation (idle_viewer track2)) \<and>
   animation_index (tick 0 (toggle_animation (idle_viewer track2)))
     = view_length (toggle_animation (idle_viewer track2)) \<and>
   1 \<in> tk_pending (tick 0 (toggle_animation (idle_viewer track2))) \<and>
   animation_index (tick 1 (tick 0 (toggle_animation (idle_viewer track2)))) = 0 \<and>
   tk_pending (tick 1 (tick 0 (toggle_animation (idle_viewer track2)))) = {} \<and>
   \<not> animation_playing (tick 1 (tick 0 (toggle_animation (idle_viewer track2))))"
proof -
  have r: "reachable (Some track2) (toggle_animation (idle_viewer track2))"
    by (rule reachable.toggle, rule reachable.init) (simp_all add: idle_viewer_def)
  have h1: "0 \<in> tk_pending (toggle_animation (idle_viewer track2))"
    by code_simp
  have h2: "animation_index (tick 0 (toggle_animation (idle_viewer track2)))
     = view_length (toggle_animation (idle_viewer track2))"
    by code_simp
  have h3: "1 \<in> tk_pending (tick 0 (toggle_animation (idle_viewer track2)))"
    by code_simp
  from playback_cursor_bounds [OF r] h1 h2 h3 r show ?thesis by blast
qed

subsection \<open>Distance\<close>

lemma sin_half_diff_sq: "(sin ((x - y) / 2))\<^sup>2 = (sin ((y - x) / 2))\<^sup>2" for x y :: real
proof -
  have "(x - y) / 2 = - ((y - x) / 2)" by (simp add: diff_divide_distrib)
  then have "sin ((x - y) / 2) = - sin ((y - x) / 2)" by (metis sin_minus)
  then show ?thesis by simp
qed

text \<open>
  Claim C7. The haversine distance, with Earth radius 6371 km, is symmetric in its two
  points, and the distance from a point to itself is 0.
\<close>

theorem haversine_symmetric_and_zero:
  "haversine_distance lat1 lon1 lat2 lon2 = haversine_distance lat2 lon2 lat1 lon1 \<and>
   haversine_distance lat1 lon1 lat1 lon1 = Inr 0"
proof
  show "haversine_distance lat1 lon1 lat2 lon2 = haversine_distance lat2 lon2 lat1 lon1"
    unfolding haversine_distance_def Let_def
    by (simp add: sin_half_diff_sq [of "radians lat2" "radians lat1"]
        sin_half_diff_sq [of "radians lon2" "radians lon1"] mult.commute)
  show "haversine_distance lat1 lon1 lat1 lon1 = Inr 0"
    by (simp add: haversine_distance_def py_sqrt_def py_asin_def)
qed

subsection \<open>Day and night\<close>

lemma is_daytime_fallback:
  assumes "to_kenyan ts = Inr k" and "sun lat lon (date k) = Inl e"
  shows "is_daytime sun lat lon ts = Inr (6 \<le> hour k \<and> hour k \<le> 18)"
  using assms
  by (cases e) (simp_all add: is_daytime_def is_daytime_try_def calculate_sunrise_sunset_def)

lemma is_daytime_raw_fallback:
  assumes "to_kenyan ts = Inl e"
  shows "is_daytime sun lat lon ts = Inr (6 \<le> hour ts \<and> hour ts \<le> 18)"
  using assms by (simp add: is_daytime_def is_daytime_try_def)

text \<open>
  Claim C1 at hour 18. Without the solar computation, a timestamp of 18:30 Nairobi time
  is classified as day, and so is a timestamp whose conversion fails and whose own clock
  reads 18:30: the fallback window of the code is \<open>6 <= hour <= 18\<close>, one hour longer
  than the window from 6 to 18 exclusive.
\<close>

theorem fallback_window_includes_hour_18:
  "to_kenyan evening_utc = Inr evening_nairobi \<and> hour evening_nairobi = 18 \<and>
   is_daytime no_astral (- 1.29) 36.82 evening_utc = Inr True \<and>
   to_kenyan last_evening = Inl OverflowError \<and> hour last_evening = 18 \<and>
   is_daytime no_astral (- 1.29) 36.82 last_evening = Inr True \<and>
   \<not> spec_daytime_window 18"
proof -
  have k: "to_kenyan evening_utc = Inr evening_nairobi"
    by (simp add: to_kenyan_def utc_localize_def astimezone_def shift_wall_def evening_utc_def
        evening_nairobi_def kenyan_tz_def max_wall_def us_per_day_def us_per_hour_def)
  have h: "hour evening_nairobi = 18"
    by (simp add: hour_def evening_nairobi_def us_per_day_def us_per_hour_def)
  have o: "to_kenyan last_evening = Inl OverflowError"
    by (simp add: to_kenyan_def astimezone_def shift_wall_def last_evening_def
        kenyan_tz_def max_wall_def us_per_day_def us_per_hour_def)
  have r: "hour last_evening = 18"
    by (simp add: hour_def last_evening_def us_per_day_def us_per_hour_def)
  have "is_daytime no_astral (- 1.29) 36.82 evening_utc = Inr True"
    using is_daytime_fallback [OF k, of no_astral _ _ ImportError] h by (simp add: no_astral_def)
  moreover have "is_daytime no_astral (- 1.29) 36.82 last_evening = Inr True"
    using is_daytime_raw_fallback [OF o] r by simp
  moreover have "\<not> spec_daytime_window 18" by (simp add: spec_daytime_window_def)
  ultimately show ?thesis using k h o r by simp
qed

text \<open>
  Claim C4. The classifier is total: whatever the timestamp, and whether the conversion
  to Nairobi time, the solar computation or the comparison with sunrise and sunset
  raises, \<open>is_daytime\<close> returns a boolean and raises nothing.
\<close>

theorem is_daytime_total:
  "(\<exists>b. is_daytime sun lat lon ts = Inr b) \<and>
   is_daytime sun lat lon ts =
     Inr (case to_kenyan ts of
            Inl e \<Rightarrow> 6 \<le> hour ts \<and> hour ts \<le> 18
          | Inr k \<Rightarrow>
              (case sun lat lon (date k) of
                 Inl e \<Rightarrow> 6 \<le> hour k \<and> hour k \<le> 18
               | Inr (sunrise, sunset) \<Rightarrow>
                   (case stamp_le sunrise k of
                      Inl e \<Rightarrow> 6 \<le> hour ts \<and> hour ts \<le> 18
                    | Inr False \<Rightarrow> False
                    | Inr True \<Rightarrow>
                        (case stamp_le k sunset of
                           Inl e \<Rightarrow> 6 \<le> hour ts \<and> hour ts \<le> 18
                         | Inr b \<Rightarrow> b))))"
proof
  show "\<exists>b. is_daytime sun lat lon ts = Inr b"
    by (simp add: is_daytime_def split: sum.split)
next
  show "is_daytime sun lat lon ts =
     Inr (case to_kenyan ts of
            Inl e \<Rightarrow> 6 \<le> hour ts \<and> hour ts \<le> 18
          | Inr k \<Rightarrow>
              (case sun lat lon (date k) of
                 Inl e \<Rightarrow> 6 \<le> hour k \<and> hour k \<le> 18
               | Inr (sunrise, sunset) \<Rightarrow>
                   (case stamp_le sunrise k of
                      Inl e \<Rightarrow> 6 \<le> hour ts \<and> hour ts \<le> 18
                    | Inr False \<Rightarrow> False
                    | Inr True \<Rightarrow>
                        (case stamp_le k sunset of
                           Inl e \<Rightarrow> 6 \<le> hour ts \<and> hour ts \<le> 18
                         | Inr b \<Rightarrow> b))))"
  proof (cases "to_kenyan ts")
    case (Inl e)
    then show ?thesis by (simp add: is_daytime_raw_fallback)
  next
    case k: (Inr k)
    show ?thesis
    proof (cases "sun lat lon (date k)")
      case (Inl e)
      with k show ?thesis by (simp add: is_daytime_fallback)
    next
      case (Inr p)
      with k show ?thesis
        by (cases p)
          (auto simp: is_daytime_def is_daytime_try_def calculate_sunrise_sunset_def
            split: sum.split bool.split)
    qed
  qed
qed

subsection \<open>Filtering\<close>

lemma select_rows_map2:
  "select_rows data (map2 (\<and>) (map p data) (map q data)) = filter (\<lambda>r. p r \<and> q r) data"
  by (induction data) (simp_all add: select_rows_def)

lemma filter_by_dates_naive:
  assumes "to_datetime a = Inr (Naive s)" and "to_datetime b = Inr (Naive e)"
    and "ts_min \<le> e + day_ns" and "e + day_ns \<le> ts_max"
  shows "filter_by_dates to_datetime a b data =
     Inr (filter (\<lambda>r. case timestamp r of None \<Rightarrow> False | Some t \<Rightarrow> s \<le> t \<and> t < e + day_ns) data)"
proof -
  have "filter (\<lambda>r. (case timestamp r of None \<Rightarrow> False | Some t \<Rightarrow> s \<le> t) \<and>
             (case timestamp r of None \<Rightarrow> False | Some t \<Rightarrow> t < e + day_ns)) data
      = filter (\<lambda>r. case timestamp r of None \<Rightarrow> False | Some t \<Rightarrow> s \<le> t \<and> t < e + day_ns) data"
    by (rule filter_cong) (auto split: option.splits)
  then show ?thesis using assms
    by (simp add: filter_by_dates_def add_timedelta_def shift_ns_def column_ge_def column_lt_def
        select_rows_map2)
qed

lemma filter_by_dates_overflow:
  assumes "to_datetime a = Inr x" and "to_datetime b = Inr (Naive e)" and "ts_max < e + day_ns"
  shows "filter_by_dates to_datetime a b data = Inl OverflowError"
  using assms by (simp add: filter_by_dates_def add_timedelta_def shift_ns_def)

lemma mset_place_row: "mset (place_row r xs) = add_mset r (mset xs)"
  by (induction xs) simp_all

lemma mset_sort_values: "mset (sort_values data) = mset data"
  by (induction data) (simp_all add: sort_values_def mset_place_row)

lemma set_place_row: "set (place_row r xs) = insert r (set xs)"
  by (induction xs) auto

lemma timestamp_le_total: "timestamp_le a b \<or> timestamp_le b a"
  by (cases a; cases b) auto

lemma timestamp_le_trans: "timestamp_le a b \<Longrightarrow> timestamp_le b c \<Longrightarrow> timestamp_le a c"
  by (cases a; cases b; cases c) auto

lemma sorted_place_row:
  "sorted_wrt (\<lambda>a b. timestamp_le (timestamp a) (timestamp b)) xs \<Longrightarrow>
   sorted_wrt (\<lambda>a b. timestamp_le (timestamp a) (timestamp b)) (place_row r xs)"
proof (induction xs)
  case Nil
  then show ?case by simp
next
  case (Cons x xs)
  show ?case
  proof (cases "timestamp_le (timestamp r) (timestamp x)")
    case True
    with Cons.prems show ?thesis by (auto intro: timestamp_le_trans)
  next
    case False
    then have "timestamp_le (timestamp x) (timestamp r)" using timestamp_le_total by blast
    with False Cons show ?thesis by (auto simp: set_place_row)
  qed
qed

lemma sorted_sort_values:
  "sorted_wrt (\<lambda>a b. timestamp_le (timestamp a) (timestamp b)) (sort_values data)"
proof (induction data)
  case Nil
  show ?case by (simp add: sort_values_def)
next
  case (Cons r data)
  then show ?case using sorted_place_row [of "sort_values data" r] by (simp add: sort_values_def)
qed

lemma set_sort_values: "set (sort_values data) = set data"
  using mset_sort_values [of data] by (metis set_mset_mset)

lemma ascending_values:
  assumes "sorted_wrt (\<lambda>a b. timestamp_le (timestamp a) (timestamp b)) xs"
    and "\<forall>r \<in> set xs. timestamp r \<noteq> None"
  shows "\<exists>ts. map timestamp xs = map Some ts \<and> sorted ts"
  using assms
proof (induction xs)
  case Nil
  then show ?case by simp
next
  case (Cons x xs)
  then obtain ts where ts: "map timestamp xs = map Some ts" "sorted ts" by auto
  from Cons.prems obtain t where t: "timestamp x = Some t" by auto
  have "t \<le> u" if "u \<in> set ts" for u
  proof -
    from that ts(1) have "Some u \<in> set (map timestamp xs)" by simp
    then obtain r where "r \<in> set xs" "timestamp r = Some u" by auto
    with Cons.prems(1) t show ?thesis by auto
  qed
  with ts t have "map timestamp (x # xs) = map Some (t # ts) \<and> sorted (t # ts)" by auto
  then show ?case by blast
qed

lemma day_floor_bounds: "day_floor t \<le> t \<and> t < day_floor t + day_ns"
proof -
  have pos: "0 < day_ns" by (simp add: day_ns_def)
  have "t = t div day_ns * day_ns + t mod day_ns" by simp
  moreover have "0 \<le> t mod day_ns" using pos by simp
  moreover have "t mod day_ns < day_ns" using pos by simp
  ultimately show ?thesis unfolding day_floor_def by linarith
qed

text \<open>
  Claim C8, as the code has it. With a table loaded, a subject selected, and start and
  end texts that parse to dates \<open>s\<close> and \<open>e\<close> with \<open>e + 1 day\<close> still a timestamp
  (at most \<open>Timestamp.max\<close>), the filtered view holds exactly the rows of the subject
  whose timestamp \<open>t\<close> satisfies \<open>s \<le> t < e + 1 day\<close>, each as often as the table has
  it, in non-decreasing order of timestamp. When \<open>s\<close> and \<open>e\<close> are the days of the first
  and the last timestamp of the subject, the view holds every row of the subject.
\<close>

theorem filter_data_view:
  assumes gps: "gps_data v = Some gps" and animal: "animal_var v \<noteq> []"
    and start: "to_datetime (start_date_var v) = Inr (Naive s)"
    and "end": "to_datetime (end_date_var v) = Inr (Naive e)"
    and lower: "ts_min \<le> e + day_ns" and upper: "e + day_ns \<le> ts_max"
  shows "\<exists>view. filtered_data (filter_data to_datetime v) = Some view \<and>
           mset view = mset (in_range_rows (animal_var v) s (e + day_ns) gps) \<and>
           (\<exists>ts. map timestamp view = map Some ts \<and> sorted ts) \<and>
           (s = day_floor lo \<and> e = day_floor hi \<and>
            (\<forall>r \<in> set gps. individual_local_identifier r = animal_var v \<longrightarrow>
                (\<exists>t. timestamp r = Some t \<and> lo \<le> t \<and> t \<le> hi))
            \<longrightarrow> mset view = mset (filter (\<lambda>r. individual_local_identifier r = animal_var v) gps))"
proof -
  define subject where "subject = filter (\<lambda>r. individual_local_identifier r = animal_var v) gps"
  define chosen where "chosen =
    filter (\<lambda>r. case timestamp r of None \<Rightarrow> False | Some t \<Rightarrow> s \<le> t \<and> t < e + day_ns) subject"
  define view where "view = sort_values chosen"
  have fd: "filtered_data (filter_data to_datetime v) = Some view"
    using gps animal filter_by_dates_naive [OF start "end" lower upper, of subject]
    by (simp add: filter_data_def Let_def subject_def chosen_def view_def)
  have chosen_eq: "chosen = in_range_rows (animal_var v) s (e + day_ns) gps"
    by (simp add: chosen_def subject_def in_range_rows_def conj_commute cong: conj_cong)
  have m: "mset view = mset (in_range_rows (animal_var v) s (e + day_ns) gps)"
    by (simp add: view_def mset_sort_values chosen_eq)
  have "\<forall>r \<in> set view. timestamp r \<noteq> None"
    by (auto simp: view_def set_sort_values chosen_def split: option.splits)
  then have asc: "\<exists>ts. map timestamp view = map Some ts \<and> sorted ts"
    using sorted_sort_values [of chosen] by (simp add: view_def ascending_values)
  have whole: "mset view = mset subject"
    if s: "s = day_floor lo" and e: "e = day_floor hi"
      and all: "\<forall>r \<in> set gps. individual_local_identifier r = animal_var v \<longrightarrow>
                (\<exists>t. timestamp r = Some t \<and> lo \<le> t \<and> t \<le> hi)"
  proof -
    have lo: "day_floor lo \<le> lo" using day_floor_bounds [of lo] by simp
    have hi: "hi < day_floor hi + day_ns" using day_floor_bounds [of hi] by simp
    have "chosen = subject" unfolding chosen_def
    proof (rule filter_True)
      show "\<forall>r \<in> set subject. (case timestamp r of None \<Rightarrow> False | Some t \<Rightarrow> s \<le> t \<and> t < e + day_ns)"
        using all lo hi s e by (fastforce simp: subject_def)
    qed
    then show ?thesis by (simp add: view_def mset_sort_values)
  qed
  show ?thesis using fd m asc whole unfolding subject_def by blast
qed

text \<open>
  The theorem on five rows of one subject over two days, 2024-01-01 and 2024-01-02, and
  one row of another subject, filtered by those two days.
\<close>

theorem filter_data_view_witness:
  "gps_data two_day_viewer = Some two_day_table \<and> animal_var two_day_viewer \<noteq> [] \<and>
   two_day_parser (start_date_var two_day_viewer) = Inr (Naive (day_floor (19723 * day_ns + 1))) \<and>
   two_day_parser (end_date_var two_day_viewer) = Inr (Naive (day_floor (19724 * day_ns + 7))) \<and>
   ts_min \<le> 19724 * day_ns + day_ns \<and> 19724 * day_ns + day_ns \<le> ts_max \<and>
   map timestamp (the (filtered_data (filter_data two_day_parser two_day_viewer)))
     = map Some [19723 * day_ns + 1, 19723 * day_ns + 3, 19723 * day_ns + 5,
                 19724 * day_ns + 2, 19724 * day_ns + 7] \<and>
   size (mset (the (filtered_data (filter_data two_day_parser two_day_viewer)))) = 5"
proof -
  have g: "gps_data two_day_viewer = Some two_day_table"
    by (simp add: two_day_viewer_def idle_viewer_def)
  have a: "animal_var two_day_viewer \<noteq> []"
    by (simp add: two_day_viewer_def idle_viewer_def)
  have lo: "day_floor (19723 * day_ns + 1) = 19723 * day_ns"
    by (simp add: day_floor_def day_ns_def)
  have hi: "day_floor (19724 * day_ns + 7) = 19724 * day_ns"
    by (simp add: day_floor_def day_ns_def)
  have s: "two_day_parser (start_date_var two_day_viewer) = Inr (Naive (19723 * day_ns))"
    by (simp add: two_day_viewer_def idle_viewer_def two_day_parser_def)
  have e: "two_day_parser (end_date_var two_day_viewer) = Inr (Naive (19724 * day_ns))"
    by (simp add: two_day_viewer_def idle_viewer_def two_day_parser_def)
  have l: "ts_min \<le> 19724 * day_ns + day_ns" by (simp add: ts_min_def day_ns_def)
  have u: "19724 * day_ns + day_ns \<le> ts_max" by (simp add: ts_max_def day_ns_def)
  have ts: "map timestamp (the (filtered_data (filter_data two_day_parser two_day_viewer)))
     = map Some [19723 * day_ns + 1, 19723 * day_ns + 3, 19723 * day_ns + 5,
                 19724 * day_ns + 2, 19724 * day_ns + 7]"
    by code_simp
  have n: "size (mset (in_range_rows (animal_var two_day_viewer) (19723 * day_ns)
       (19724 * day_ns + day_ns) two_day_table)) = 5"
    by (simp add: in_range_rows_def two_day_viewer_def idle_viewer_def two_day_table_def
        sample_row_def day_ns_def)
  from filter_data_view [OF g a s e l u, of "19723 * day_ns + 1" "19724 * day_ns + 7"]
  obtain view where v: "filtered_data (filter_data two_day_parser two_day_viewer) = Some view"
    and m: "mset view = mset (in_range_rows (animal_var two_day_viewer) (19723 * day_ns)
       (19724 * day_ns + day_ns) two_day_table)"
    by blast
  from m n have "size (mset view) = 5" by simp
  with v have "size (mset (the (filtered_data (filter_data two_day_parser two_day_viewer)))) = 5"
    by simp
  with g a s e l u lo hi ts show ?thesis by simp
qed

text \<open>
  Claim C8 as the specification words it, for every pair of dates that parse, fails at
  the last day a timestamp can hold. With start 2262-04-10 and end 2262-04-11 (days 106750
  and 106751 of the epoch) the addition of one day to the end raises, the \<open>except\<close> branch
  skips the date filter, and the view keeps a row of 2024, which lies before the start.
\<close>

theorem filter_data_last_day_counterexample:
  "gps_data last_day_viewer = Some [sample_row (19723 * day_ns + 5)] \<and>
   animal_var last_day_viewer = ''A'' \<and>
   last_day_parser (start_date_var last_day_viewer) = Inr (Naive (106750 * day_ns)) \<and>
   last_day_parser (end_date_var last_day_viewer) = Inr (Naive (106751 * day_ns)) \<and>
   106751 * day_ns \<le> ts_max \<and> ts_max < 106751 * day_ns + day_ns \<and>
   filtered_data (filter_data last_day_parser last_day_viewer)
     = Some [sample_row (19723 * day_ns + 5)] \<and>
   in_range_rows ''A'' (106750 * day_ns) (106751 * day_ns + day_ns)
     [sample_row (19723 * day_ns + 5)] = []"
proof -
  have s: "last_day_parser (start_date_var last_day_viewer) = Inr (Naive (106750 * day_ns))"
    by (simp add: last_day_viewer_def idle_viewer_def last_day_parser_def)
  have e: "last_day_parser (end_date_var last_day_viewer) = Inr (Naive (106751 * day_ns))"
    by (simp add: last_day_viewer_def idle_viewer_def last_day_parser_def)
  have u: "ts_max < 106751 * day_ns + day_ns" by (simp add: ts_max_def day_ns_def)
  have r: "106751 * day_ns \<le> ts_max" by (simp add: ts_max_def day_ns_def)
  have "filtered_data (filter_data last_day_parser last_day_viewer)
     = Some [sample_row (19723 * day_ns + 5)]"
    using filter_by_dates_overflow [OF s e u]
    by (simp add: filter_data_def Let_def last_day_viewer_def idle_viewer_def sort_values_def
        sample_row_def)
  moreover have "in_range_rows ''A'' (106750 * day_ns) (106751 * day_ns + day_ns)
     [sample_row (19723 * day_ns + 5)] = []"
    by (simp add: in_range_rows_def sample_row_def day_ns_def)
  moreover have "gps_data last_day_viewer = Some [sample_row (19723 * day_ns + 5)]"
    by (simp add: last_day_viewer_def idle_viewer_def)
  moreover have "animal_var last_day_viewer = ''A''"
    by (simp add: last_day_viewer_def idle_viewer_def)
  ultimately show ?thesis using s e u r by simp
qed

subsection \<open>The timestamp normalizer\<close>

lemma digit_cases:
  "n < 10 \<Longrightarrow> n = 0 \<or> n = 1 \<or> n = 2 \<or> n = 3 \<or> n = 4 \<or> n = 5 \<or> n = 6 \<or> n = 7 \<or> n = 8 \<or> n = (9::nat)"
  by arith

lemma digit_char_props:
  assumes "n < 10"
  shows "is_decimal (digit_char n)" and "digit_val (digit_char n) = n"
    and "digit_char n \<noteq> CHR ''-''" and "digit_char n \<noteq> CHR '' ''" and "digit_char n \<noteq> CHR '':''"
  using digit_cases [OF assms]
  by (auto simp: digit_char_def is_decimal_def digit_val_def)

lemma is_digit_not_separator:
  "is_digit c \<Longrightarrow> c \<noteq> CHR ''-'' \<and> c \<noteq> CHR '' '' \<and> c \<noteq> CHR '':''"
  by (auto simp: is_digit_def is_decimal_def)

lemma stripped_digits: "list_all is_digit s \<Longrightarrow> stripped s = s"
  by (induction s) (auto simp: stripped_def remove_char_def dest: is_digit_not_separator)

lemma stripped_empty: "stripped [] = []"
  by (simp add: stripped_def remove_char_def)

text \<open>
  Claim C6. When the input without its blanks, hyphens and colons is all digits and at
  least 14 characters long, the normalizer returns that stripped text padded on the right
  with zeros to 17 characters (a longer one as it is). An input of 17 digits is returned
  unchanged.
\<close>

theorem numeric_timestamp_padded:
  "(isdigit (stripped s) \<and> 14 \<le> length (stripped s) \<longrightarrow>
      convert_timestamp (Some s) = Some (stripped s @ replicate (17 - length (stripped s)) CHR ''0'') \<and>
      (length (stripped s) \<le> 17 \<longrightarrow> length (the (convert_timestamp (Some s))) = 17)) \<and>
   (isdigit s \<and> length s = 17 \<longrightarrow> convert_timestamp (Some s) = Some s)"
proof (intro conjI impI)
  assume a: "isdigit (stripped s) \<and> 14 \<le> length (stripped s)"
  then have "s \<noteq> []" using stripped_empty by (auto simp: isdigit_def)
  with a show r: "convert_timestamp (Some s) = Some (stripped s @ replicate (17 - length (stripped s)) CHR ''0'')"
    by (simp add: convert_timestamp_def ljust_def)
  assume "length (stripped s) \<le> 17"
  with r show "length (the (convert_timestamp (Some s))) = 17" by simp
next
  assume b: "isdigit s \<and> length s = 17"
  then have st: "stripped s = s" by (simp add: isdigit_def stripped_digits)
  from b have "s \<noteq> []" by auto
  with b st show "convert_timestamp (Some s) = Some s"
    by (simp add: convert_timestamp_def ljust_def)
qed

text \<open>
  The theorem at \<open>2024-01-15 10:30:00\<close>, stripped to 14 digits and padded, and at a
  timestamp of 17 digits.
\<close>

theorem numeric_timestamp_padded_witness:
  "isdigit (stripped ''2024-01-15 10:30:00'') \<and> 14 \<le> length (stripped ''2024-01-15 10:30:00'') \<and>
   length (stripped ''2024-01-15 10:30:00'') \<le> 17 \<and>
   convert_timestamp (Some ''2024-01-15 10:30:00'') = Some ''20240115103000000'' \<and>
   isdigit ''20240115103000123'' \<and> length ''20240115103000123'' = 17 \<and>
   convert_timestamp (Some ''20240115103000123'') = Some ''20240115103000123''"
proof -
  have st: "stripped ''2024-01-15 10:30:00'' = ''20240115103000''"
    by (simp add: stripped_def remove_char_def)
  have d1: "isdigit (stripped ''2024-01-15 10:30:00'')"
    by (simp add: st isdigit_def is_digit_def is_decimal_def)
  have l1: "14 \<le> length (stripped ''2024-01-15 10:30:00'')" by (simp add: st)
  have d2: "isdigit ''20240115103000123''"
    by (simp add: isdigit_def is_digit_def is_decimal_def)
  have l2: "length ''20240115103000123'' = 17" by simp
  from numeric_timestamp_padded [of "''2024-01-15 10:30:00''"] d1 l1
  have "convert_timestamp (Some ''2024-01-15 10:30:00'') = Some ''20240115103000000''"
    by (simp add: st eval_nat_numeral)
  moreover from numeric_timestamp_padded [of "''20240115103000123''"] d2 l2
  have "convert_timestamp (Some ''20240115103000123'') = Some ''20240115103000123''"
    by blast
  ultimately show ?thesis using d1 l1 d2 l2 st by simp
qed

end
